theory Spec2Isabelle
  imports Complex_Main
begin

section \<open>Tank survival: the game core of the richest prototype (v5)\<close>

text \<open>
  The development follows \<^verbatim>\<open>tank survival v5.py\<close>, class \<^verbatim>\<open>TankGame\<close>. Rendering, sound and
  widget layout are left out; every attribute that a game rule reads or writes is a field
  of the state record, and every callback is a function from state to state, returning
  the message boxes it shows as its visible result.

  Python integers are \<^typ>\<open>int\<close>. Python floats are idealised as exact reals.
\<close>

subsection \<open>Tunable game variables\<close>

definition STARTING_FUEL :: int where "STARTING_FUEL = 200"
definition FUEL_CONSUMPTION_PER_SEC :: int where "FUEL_CONSUMPTION_PER_SEC = 1"
definition STARTING_SHELLS :: int where "STARTING_SHELLS = 6"
definition STARTING_GUNS :: int where "STARTING_GUNS = 4"
definition STARTING_CREW :: int where "STARTING_CREW = 4"
definition STARTING_AMMO :: int where "STARTING_AMMO = 200"
definition STARTING_PARTS :: int where "STARTING_PARTS = 0"
definition FUEL_CAN_MIN :: int where "FUEL_CAN_MIN = 10"
definition FUEL_CAN_MAX :: int where "FUEL_CAN_MAX = 100"
definition AMMO_PER_BOX :: int where "AMMO_PER_BOX = 100"
definition MG_AMMO_COST :: int where "MG_AMMO_COST = 33"
definition ZOMBIE_PENALTY_PER_ZOMBIE :: real where "ZOMBIE_PENALTY_PER_ZOMBIE = 5 / 100"
definition GUN_BONUS :: real where "GUN_BONUS = 15 / 100"
definition CHANCE_MIN :: real where "CHANCE_MIN = 5 / 100"
definition CHANCE_MAX :: real where "CHANCE_MAX = 95 / 100"
definition VIEW_W :: int where "VIEW_W = 1200"
definition VIEW_H :: int where "VIEW_H = 800"

lemmas tunables =
  STARTING_FUEL_def FUEL_CONSUMPTION_PER_SEC_def STARTING_SHELLS_def STARTING_GUNS_def
  STARTING_CREW_def STARTING_AMMO_def STARTING_PARTS_def FUEL_CAN_MIN_def FUEL_CAN_MAX_def
  AMMO_PER_BOX_def MG_AMMO_COST_def ZOMBIE_PENALTY_PER_ZOMBIE_def GUN_BONUS_def
  CHANCE_MIN_def CHANCE_MAX_def VIEW_W_def VIEW_H_def

subsection \<open>The random source\<close>

text \<open>
  Every call of the \<^verbatim>\<open>random\<close> module consumes one raw draw, a natural number supplied
  by the caller. \<^verbatim>\<open>random.randint(a, b)\<close> maps it into \<open>a..b\<close>, \<^verbatim>\<open>random.random()\<close> maps it
  to one of the \<open>2^53\<close> values \<open>k / 2^53\<close> of \<open>[0, 1)\<close>, and \<^verbatim>\<open>random.choice(xs)\<close> maps
  it to an index below \<open>len(xs)\<close>.
\<close>

definition randint :: "int \<Rightarrow> int \<Rightarrow> nat \<Rightarrow> int" where
  "randint a b r = a + int (r mod nat (b - a + 1))"

definition random_random :: "nat \<Rightarrow> real" where
  "random_random r = real (r mod 2 ^ 53) / 2 ^ 53"

definition random_choice :: "'a list \<Rightarrow> nat \<Rightarrow> 'a" where
  "random_choice xs r = xs ! (r mod length xs)"

subsection \<open>Data structures\<close>

datatype kind = Fuel | Part | Shell | Zombie | Ammo

record sprite =
  sp_kind :: kind
  sp_x :: int
  sp_y :: int
  sp_w :: int
  sp_h :: int

datatype reason = No_reason | Manual_stop | Engine_breakdown | Out_of_fuel

record level_state =
  lv_active :: bool
  lv_reason :: reason
  lv_fuel_cans :: int
  lv_parts :: int
  lv_shells :: int
  lv_zombies :: int
  lv_ammo_boxes :: int

datatype outside_view = OUT_DRIVER | OUT_LEFT | OUT_RIGHT

datatype view = ENGINE | DRIVER | LEFT_GUNNER | RIGHT_GUNNER | Outside outside_view

type_synonym sprite_map = "outside_view \<Rightarrow> sprite list"

text \<open>
  The attributes of \<^verbatim>\<open>TankGame\<close> that the game rules use. \<open>destroyed\<close> records that
  \<^verbatim>\<open>self.destroy()\<close> was called on the root window.
\<close>

record game =
  fuel :: int
  parts :: int
  shells :: int
  guns :: int
  crew :: int
  ammo :: int
  driving :: bool
  engine_broken :: bool
  out_of_fuel :: bool
  level :: level_state
  current_view_key :: view
  sprites_by_view :: sprite_map
  destroyed :: bool

definition initial_level :: level_state where
  "initial_level = \<lparr>lv_active = False, lv_reason = No_reason, lv_fuel_cans = 0, lv_parts = 0,
     lv_shells = 0, lv_zombies = 0, lv_ammo_boxes = 0\<rparr>"

text \<open>The state after \<^verbatim>\<open>__init__\<close>, which ends with \<^verbatim>\<open>_start_timers_for_driving\<close>.\<close>

definition initial_game :: game where
  "initial_game = \<lparr>fuel = STARTING_FUEL, parts = STARTING_PARTS, shells = STARTING_SHELLS,
     guns = STARTING_GUNS, crew = STARTING_CREW, ammo = STARTING_AMMO, driving = True,
     engine_broken = False, out_of_fuel = False, level = initial_level,
     current_view_key = DRIVER, sprites_by_view = (\<lambda>_. []), destroyed = False\<rparr>"

subsection \<open>Level creation\<close>

text \<open>
  The draws of one \<^verbatim>\<open>_start_level\<close>: one per pool quantity, and for the \<open>j\<close>-th sprite of
  each kind the three draws of \<^verbatim>\<open>place\<close> (x, y and the outside view).
\<close>

record level_draws =
  d_parts :: nat
  d_fuel_cans :: nat
  d_shells :: nat
  d_zombies :: nat
  d_ammo_boxes :: nat
  d_place :: "kind \<Rightarrow> nat \<Rightarrow> nat \<times> nat \<times> nat"

definition new_sprite :: "kind \<Rightarrow> nat \<times> nat \<times> nat \<Rightarrow> sprite" where
  "new_sprite k dr = \<lparr>sp_kind = k,
     sp_x = randint 80 (VIEW_W - 120) (fst dr),
     sp_y = randint (VIEW_H * 2 div 3) (VIEW_H - 100) (fst (snd dr)),
     sp_w = 50, sp_h = 50\<rparr>"

text \<open>
  The lists of \<^verbatim>\<open>sprites_by_view\<close> are mutated in place; \<open>set_sprites m view_key sps\<close> is
  the dictionary whose list under \<open>view_key\<close> has become \<open>sps\<close>.
\<close>

definition set_sprites :: "sprite_map \<Rightarrow> outside_view \<Rightarrow> sprite list \<Rightarrow> sprite_map" where
  "set_sprites m view_key sps = m(view_key := sps)"

text \<open>\<^verbatim>\<open>self.sprites_by_view[view_key].append(sp)\<close>.\<close>

definition append_sprite :: "sprite_map \<Rightarrow> outside_view \<Rightarrow> sprite \<Rightarrow> sprite_map" where
  "append_sprite m view_key sp = set_sprites m view_key (m view_key @ [sp])"

text \<open>\<^verbatim>\<open>place(kind, n)\<close>: the loop \<^verbatim>\<open>for _ in range(n)\<close>, iteration \<open>n\<close> last.\<close>

primrec place_loop :: "(nat \<Rightarrow> nat \<times> nat \<times> nat) \<Rightarrow> kind \<Rightarrow> nat \<Rightarrow> sprite_map \<Rightarrow> sprite_map" where
  "place_loop dr k 0 m = m"
| "place_loop dr k (Suc n) m =
     append_sprite (place_loop dr k n m)
       (random_choice [OUT_DRIVER, OUT_LEFT, OUT_RIGHT] (snd (snd (dr n))))
       (new_sprite k (dr n))"

definition place :: "level_draws \<Rightarrow> kind \<Rightarrow> int \<Rightarrow> sprite_map \<Rightarrow> sprite_map" where
  "place d k n m = place_loop (d_place d k) k (nat n) m"

definition populate_outside_sprites :: "level_draws \<Rightarrow> level_state \<Rightarrow> sprite_map" where
  "populate_outside_sprites d lv =
     place d Ammo (lv_ammo_boxes lv)
       (place d Zombie (lv_zombies lv)
         (place d Shell (lv_shells lv)
           (place d Fuel (lv_fuel_cans lv)
             (place d Part (lv_parts lv) (\<lambda>_. [])))))"

definition start_level :: "reason \<Rightarrow> level_draws \<Rightarrow> game \<Rightarrow> game" where
  "start_level r d s =
     (let lv = \<lparr>lv_active = True, lv_reason = r,
                lv_fuel_cans = randint 1 3 (d_fuel_cans d),
                lv_parts = max 1 (randint 1 3 (d_parts d)),
                lv_shells = randint 0 3 (d_shells d),
                lv_zombies = randint 1 6 (d_zombies d),
                lv_ammo_boxes = randint 1 2 (d_ammo_boxes d)\<rparr>
      in s\<lparr>driving := False, level := lv,
           engine_broken := (r = Engine_breakdown),
           out_of_fuel := (r = Out_of_fuel),
           sprites_by_view := populate_outside_sprites d lv\<rparr>)"

text \<open>\<^verbatim>\<open>_count_remaining_items\<close>: the sprites of one kind over the three outside views.\<close>

definition all_sprites :: "sprite_map \<Rightarrow> sprite list" where
  "all_sprites m = m OUT_DRIVER @ m OUT_LEFT @ m OUT_RIGHT"

definition count_kind :: "kind \<Rightarrow> sprite list \<Rightarrow> int" where
  "count_kind k sps = int (length (filter (\<lambda>sp. sp_kind sp = k) sps))"

definition count_remaining_items :: "sprite_map \<Rightarrow> kind \<Rightarrow> int" where
  "count_remaining_items m k = count_kind k (all_sprites m)"

subsection \<open>Message boxes\<close>

text \<open>
  One constructor per \<^verbatim>\<open>messagebox\<close> call of the game rules. A callback returns the list
  of the boxes it showed, in order; the empty list is a silent return.
\<close>

datatype msgbox =
    Cannot_start_engine_broken
  | Cannot_start_no_fuel
  | Not_enough_ammo
  | No_shells
  | No_repair_needed_driving
  | No_repair_needed_not_broken
  | Not_enough_parts
  | Engine_fixed
  | Cannot_scavenge
  | No_crew
  | Scavenging
  | Lost
  | Game_Over
  | Returned int int int int

subsection \<open>Driving and level timers\<close>

definition show_view :: "view \<Rightarrow> game \<Rightarrow> game" where
  "show_view view_key s = s\<lparr>current_view_key := view_key\<rparr>"

definition start_timers_for_driving :: "game \<Rightarrow> game" where
  "start_timers_for_driving s =
     s\<lparr>driving := True, level := (level s)\<lparr>lv_active := False\<rparr>,
       engine_broken := False, out_of_fuel := False\<rparr>"

definition trigger_breakdown_level :: "level_draws \<Rightarrow> game \<Rightarrow> game" where
  "trigger_breakdown_level d s = (if \<not> driving s then s else start_level Engine_breakdown d s)"

definition trigger_out_of_fuel_level :: "level_draws \<Rightarrow> game \<Rightarrow> game" where
  "trigger_out_of_fuel_level d s = (if \<not> driving s then s else start_level Out_of_fuel d s)"

definition fuel_tick :: "level_draws \<Rightarrow> game \<Rightarrow> game" where
  "fuel_tick d s =
     (if \<not> driving s then s
      else let s1 = s\<lparr>fuel := fuel s - FUEL_CONSUMPTION_PER_SEC\<rparr>
           in if fuel s1 \<le> 0 then trigger_out_of_fuel_level d (s1\<lparr>fuel := 0\<rparr>) else s1)"

definition driver_stop :: "level_draws \<Rightarrow> game \<Rightarrow> game" where
  "driver_stop d s = (if \<not> driving s then s else start_level Manual_stop d s)"

definition driver_start :: "game \<Rightarrow> msgbox list \<times> game" where
  "driver_start s =
     (if driving s then ([], s)
      else if engine_broken s then ([Cannot_start_engine_broken], s)
      else if out_of_fuel s \<and> fuel s \<le> 0 then ([Cannot_start_no_fuel], s)
      else ([], show_view DRIVER (start_timers_for_driving s)))"

subsection \<open>Clicking: cannon and machine gun\<close>

record event =
  ev_x :: int
  ev_y :: int
  ev_num :: int

definition hit :: "event \<Rightarrow> sprite \<Rightarrow> bool" where
  "hit e sp = (sp_kind sp = Zombie \<and>
     sp_x sp \<le> ev_x e \<and> ev_x e \<le> sp_x sp + sp_w sp \<and>
     sp_y sp \<le> ev_y e \<and> ev_y e \<le> sp_y sp + sp_h sp)"

text \<open>
  The search \<^verbatim>\<open>for i in range(len(sprites) - 1, -1, -1)\<close>: \<open>find_clicked e sprites n\<close> looks
  at the indices \<open>n - 1\<close> down to \<open>0\<close>.
\<close>

primrec find_clicked :: "event \<Rightarrow> sprite list \<Rightarrow> nat \<Rightarrow> nat option" where
  "find_clicked e sprites 0 = None"
| "find_clicked e sprites (Suc i) =
     (if hit e (sprites ! i) then Some i else find_clicked e sprites i)"

text \<open>\<^verbatim>\<open>del sprites[clicked_idx]\<close> on the list of the current view.\<close>

definition del_sprite :: "outside_view \<Rightarrow> nat \<Rightarrow> game \<Rightarrow> game" where
  "del_sprite v idx s =
     s\<lparr>sprites_by_view :=
         set_sprites (sprites_by_view s) v
           (take idx (sprites_by_view s v) @ drop (Suc idx) (sprites_by_view s v))\<rparr>"

definition on_canvas_click :: "event \<Rightarrow> game \<Rightarrow> msgbox list \<times> game" where
  "on_canvas_click e s =
     (if \<not> lv_active (level s) then ([], s)
      else case current_view_key s of
        Outside v \<Rightarrow>
          (case find_clicked e (sprites_by_view s v) (length (sprites_by_view s v)) of
             None \<Rightarrow> ([], s)
           | Some clicked_idx \<Rightarrow>
               if v = OUT_DRIVER then
                 (if ammo s < MG_AMMO_COST then ([Not_enough_ammo], s)
                  else ([], del_sprite v clicked_idx (s\<lparr>ammo := ammo s - MG_AMMO_COST\<rparr>)))
               else if ev_num e = 1 then
                 (if shells s \<le> 0 then ([No_shells], s)
                  else ([], del_sprite v clicked_idx (s\<lparr>shells := shells s - 1\<rparr>)))
               else if ev_num e = 3 then
                 (if ammo s < MG_AMMO_COST then ([Not_enough_ammo], s)
                  else ([], del_sprite v clicked_idx (s\<lparr>ammo := ammo s - MG_AMMO_COST\<rparr>)))
               else ([], s))
      | _ \<Rightarrow> ([], s))"

subsection \<open>Engine repair\<close>

definition fix_engine :: "game \<Rightarrow> msgbox list \<times> game" where
  "fix_engine s =
     (if \<not> lv_active (level s) then ([No_repair_needed_driving], s)
      else if \<not> engine_broken s then ([No_repair_needed_not_broken], s)
      else if parts s \<le> 0 then ([Not_enough_parts], s)
      else ([Engine_fixed], s\<lparr>parts := parts s - 1, engine_broken := False\<rparr>))"

subsection \<open>Scavenging\<close>

datatype approach = Quick | Moderate | Greedy

fun base :: "approach \<Rightarrow> real" where
  "base Quick = 75 / 100"
| "base Moderate = 50 / 100"
| "base Greedy = 33 / 100"

fun max_frac :: "approach \<Rightarrow> real" where
  "max_frac Quick = 1 / 3"
| "max_frac Moderate = 50 / 100"
| "max_frac Greedy = 1"

definition clamp :: "real \<Rightarrow> real \<Rightarrow> real \<Rightarrow> real" where
  "clamp x lo hi = max lo (min hi x)"

text \<open>The survival chance, in the order of the assignments of \<^verbatim>\<open>_resolve_scavenge\<close>.\<close>

definition scavenge_chance :: "approach \<Rightarrow> bool \<Rightarrow> game \<Rightarrow> real" where
  "scavenge_chance a give_gun s =
     (let chance0 = base a;
          chance1 = chance0 - real_of_int (lv_zombies (level s)) * ZOMBIE_PENALTY_PER_ZOMBIE;
          chance2 = (if give_gun \<and> guns s > 0 then chance1 + GUN_BONUS else chance1)
      in clamp chance2 CHANCE_MIN CHANCE_MAX)"

text \<open>Python's \<^verbatim>\<open>int(x)\<close> on a float truncates toward zero.\<close>

definition py_int :: "real \<Rightarrow> int" where
  "py_int x = (if 0 \<le> x then \<lfloor>x\<rfloor> else \<lceil>x\<rceil>)"

record loot =
  got_parts :: int
  got_shells :: int
  got_fuel_cans :: int
  got_ammo_boxes :: int

definition choices :: "(kind \<Rightarrow> int) \<Rightarrow> kind list" where
  "choices avail =
     (if avail Part > 0 then [Part] else []) @
     (if avail Shell > 0 then [Shell] else []) @
     (if avail Fuel > 0 then [Fuel] else []) @
     (if avail Ammo > 0 then [Ammo] else [])"

text \<open>
  How many sprites of each kind the survivor brings back: the fraction of each kind,
  truncated, and one item of a random available kind when that gives nothing.
\<close>

definition scavenge_loot :: "real \<Rightarrow> nat \<Rightarrow> (kind \<Rightarrow> int) \<Rightarrow> loot" where
  "scavenge_loot fr pick_draw avail =
     (let g = \<lparr>got_parts = py_int (real_of_int (avail Part) * fr),
               got_shells = py_int (real_of_int (avail Shell) * fr),
               got_fuel_cans = py_int (real_of_int (avail Fuel) * fr),
               got_ammo_boxes = py_int (real_of_int (avail Ammo) * fr)\<rparr>
      in if got_parts g + got_shells g + got_fuel_cans g + got_ammo_boxes g = 0
            \<and> avail Part + avail Shell + avail Fuel + avail Ammo > 0
         then (let pick = random_choice (choices avail) pick_draw
               in if pick = Part then g\<lparr>got_parts := 1\<rparr>
                  else if pick = Shell then g\<lparr>got_shells := 1\<rparr>
                  else if pick = Fuel then g\<lparr>got_fuel_cans := 1\<rparr>
                  else g\<lparr>got_ammo_boxes := 1\<rparr>)
         else g)"

text \<open>\<^verbatim>\<open>fuel_gained\<close>: one \<^verbatim>\<open>randint(FUEL_CAN_MIN, FUEL_CAN_MAX)\<close> per collected can.\<close>

primrec fuel_gained :: "(nat \<Rightarrow> nat) \<Rightarrow> nat \<Rightarrow> int" where
  "fuel_gained fd 0 = 0"
| "fuel_gained fd (Suc n) = fuel_gained fd n + randint FUEL_CAN_MIN FUEL_CAN_MAX (fd n)"

text \<open>
  The inner \<^verbatim>\<open>while\<close> loop of \<^verbatim>\<open>_remove_items_from_map\<close> on one list: it walks the list from
  the front, deletes sprites of the kind while \<open>remaining > 0\<close>, and returns the list and
  what remains to delete.
\<close>

fun remove_kind :: "kind \<Rightarrow> int \<Rightarrow> sprite list \<Rightarrow> sprite list \<times> int" where
  "remove_kind k remaining [] = ([], remaining)"
| "remove_kind k remaining (sp # sps) =
     (if remaining > 0 then
        (if sp_kind sp = k then remove_kind k (remaining - 1) sps
         else (let (sps', remaining') = remove_kind k remaining sps in (sp # sps', remaining')))
      else (sp # sps, remaining))"

text \<open>The outer loop over the views, with its \<^verbatim>\<open>break\<close>.\<close>

fun remove_views :: "kind \<Rightarrow> int \<Rightarrow> outside_view list \<Rightarrow> sprite_map \<Rightarrow> sprite_map" where
  "remove_views k remaining [] m = m"
| "remove_views k remaining (view_key # vs) m =
     (if remaining \<le> 0 then m
      else (let (sps', remaining') = remove_kind k remaining (m view_key)
            in remove_views k remaining' vs (set_sprites m view_key sps')))"

definition remove_items_from_map :: "kind \<Rightarrow> int \<Rightarrow> sprite_map \<Rightarrow> sprite_map" where
  "remove_items_from_map k n m = remove_views k n [OUT_DRIVER, OUT_LEFT, OUT_RIGHT] m"

text \<open>
  The draws of one \<^verbatim>\<open>_resolve_scavenge\<close>: survival, loot fraction, the fallback pick, and
  the yield of the \<open>j\<close>-th fuel can.
\<close>

record scav_draws =
  d_survive :: nat
  d_frac :: nat
  d_pick :: nat
  d_fuel :: "nat \<Rightarrow> nat"

definition gun_committed :: "bool \<Rightarrow> game \<Rightarrow> bool" where
  "gun_committed give_gun s = (give_gun \<and> guns s > 0)"

definition survived :: "approach \<Rightarrow> bool \<Rightarrow> scav_draws \<Rightarrow> game \<Rightarrow> bool" where
  "survived a give_gun d s = (random_random (d_survive d) < scavenge_chance a give_gun s)"

definition loot_of :: "approach \<Rightarrow> scav_draws \<Rightarrow> game \<Rightarrow> loot" where
  "loot_of a d s =
     scavenge_loot (random_random (d_frac d) * max_frac a) (d_pick d)
       (count_remaining_items (sprites_by_view s))"

definition resolve_scavenge :: "approach \<Rightarrow> bool \<Rightarrow> scav_draws \<Rightarrow> game \<Rightarrow> msgbox list \<times> game" where
  "resolve_scavenge a give_gun d s =
     (let committed = gun_committed give_gun s;
          s1 = (if committed then s\<lparr>guns := guns s - 1\<rparr> else s)
      in if \<not> survived a give_gun d s then
           (let s2 = s1\<lparr>crew := crew s1 - 1\<rparr>
            in if crew s2 \<le> 0 then ([Scavenging, Lost, Game_Over], s2\<lparr>destroyed := True\<rparr>)
               else ([Scavenging, Lost], s2))
         else
           (let s2 = (if committed then s1\<lparr>guns := guns s1 + 1\<rparr> else s1);
                g = loot_of a d s2;
                fuel_g = fuel_gained (d_fuel d) (nat (got_fuel_cans g));
                ammo_g = got_ammo_boxes g * AMMO_PER_BOX;
                s3 = s2\<lparr>parts := parts s2 + got_parts g, shells := shells s2 + got_shells g,
                        fuel := fuel s2 + fuel_g, ammo := ammo s2 + ammo_g\<rparr>;
                m = remove_items_from_map Ammo (got_ammo_boxes g)
                      (remove_items_from_map Fuel (got_fuel_cans g)
                        (remove_items_from_map Shell (got_shells g)
                          (remove_items_from_map Part (got_parts g) (sprites_by_view s3))))
            in ([Scavenging, Returned (got_parts g) (got_shells g) fuel_g ammo_g],
                s3\<lparr>sprites_by_view := m\<rparr>)))"

text \<open>
  The button \<^verbatim>\<open>Send Scavenger\<close> (\<^verbatim>\<open>_open_scavenge_dialog\<close>) followed by \<^verbatim>\<open>Send\<close> in the
  modal dialog it opens, with the approach and the gun choice selected there.
\<close>

definition send_scavenger :: "approach \<Rightarrow> bool \<Rightarrow> scav_draws \<Rightarrow> game \<Rightarrow> msgbox list \<times> game" where
  "send_scavenger a give_gun d s =
     (if \<not> lv_active (level s) then ([Cannot_scavenge], s)
      else if crew s \<le> 0 then ([No_crew], s)
      else resolve_scavenge a give_gun d s)"

subsection \<open>The event loop\<close>

text \<open>
  What the Tk main loop can deliver: the widget callbacks and the two timers. Once the
  root window is destroyed the main loop has ended and nothing is delivered any more.
\<close>

datatype command =
    Driver_stop level_draws
  | Driver_start
  | Fuel_tick level_draws
  | Breakdown_timer level_draws
  | Fix_engine
  | Canvas_click event
  | Send_scavenger approach bool scav_draws
  | Transition_to view

fun handle :: "command \<Rightarrow> game \<Rightarrow> msgbox list \<times> game" where
  "handle (Driver_stop d) s = ([], driver_stop d s)"
| "handle Driver_start s = driver_start s"
| "handle (Fuel_tick d) s = ([], fuel_tick d s)"
| "handle (Breakdown_timer d) s = ([], trigger_breakdown_level d s)"
| "handle Fix_engine s = fix_engine s"
| "handle (Canvas_click e) s = on_canvas_click e s"
| "handle (Send_scavenger a give_gun d) s = send_scavenger a give_gun d s"
| "handle (Transition_to v) s = ([], show_view v s)"

definition mainloop_step :: "command \<Rightarrow> game \<Rightarrow> msgbox list \<times> game" where
  "mainloop_step c s = (if destroyed s then ([], s) else handle c s)"

fun run :: "command list \<Rightarrow> game \<Rightarrow> game" where
  "run [] s = s"
| "run (c # cs) s = run cs (snd (mainloop_step c s))"

inductive reachable :: "game \<Rightarrow> bool" where
  reachable_init: "reachable initial_game"
| reachable_step: "reachable s \<Longrightarrow> reachable (snd (mainloop_step c s))"

subsection \<open>The chance formula in the words of the specification\<close>

text \<open>
  \<open>chance = clamp(base - zombiesRemaining * zombiePenalty + (gunBonus if gun committed and
  guns available else 0), chanceMin, chanceMax)\<close> with the table of risk modes and the
  constants the specification picks.
\<close>

fun spec_base :: "approach \<Rightarrow> real" where
  "spec_base Quick = 75 / 100"
| "spec_base Moderate = 50 / 100"
| "spec_base Greedy = 33 / 100"

definition spec_chance :: "approach \<Rightarrow> int \<Rightarrow> bool \<Rightarrow> int \<Rightarrow> real" where
  "spec_chance mode zombiesRemaining commitGun gunsAvailable =
     max (5 / 100) (min (95 / 100)
       (spec_base mode - real_of_int zombiesRemaining * (5 / 100)
          + (if commitGun \<and> gunsAvailable > 0 then 15 / 100 else 0)))"

subsection \<open>A sample session\<close>

text \<open>
  Draws that give a level with one part, one fuel can, no shell, one zombie and one ammo
  box; the zombie stands in the left outside view at (100, 600), the items in the
  driver's outside view.
\<close>

definition sample_draws :: level_draws where
  "sample_draws = \<lparr>d_parts = 0, d_fuel_cans = 0, d_shells = 0, d_zombies = 0, d_ammo_boxes = 0,
     d_place = (\<lambda>k j. if k = Zombie then (20, 67, 1) else (0, 0, 0))\<rparr>"

text \<open>The sprites these draws place.\<close>

definition sample_sprites :: sprite_map where
  "sample_sprites v = (case v of
      OUT_DRIVER \<Rightarrow> [\<lparr>sp_kind = Part, sp_x = 80, sp_y = 533, sp_w = 50, sp_h = 50\<rparr>,
                     \<lparr>sp_kind = Fuel, sp_x = 80, sp_y = 533, sp_w = 50, sp_h = 50\<rparr>,
                     \<lparr>sp_kind = Ammo, sp_x = 80, sp_y = 533, sp_w = 50, sp_h = 50\<rparr>]
    | OUT_LEFT \<Rightarrow> [\<lparr>sp_kind = Zombie, sp_x = 100, sp_y = 600, sp_w = 50, sp_h = 50\<rparr>]
    | OUT_RIGHT \<Rightarrow> [])"

text \<open>The engine breaks down at the start of the session; the player looks out to the left.\<close>

definition breakdown_game :: game where
  "breakdown_game = run [Breakdown_timer sample_draws, Transition_to (Outside OUT_LEFT)] initial_game"

definition click_on_zombie :: event where
  "click_on_zombie = \<lparr>ev_x = 110, ev_y = 610, ev_num = 1\<rparr>"

text \<open>
  Scavenge draws: \<open>always_survive\<close> and \<open>survive_pick_fuel\<close> draw 0.0 twice and differ in
  the pick of the single item; \<open>always_fail\<close> draws \<open>1 - 2^-53\<close>.
\<close>

definition always_survive :: scav_draws where
  "always_survive = \<lparr>d_survive = 0, d_frac = 0, d_pick = 0, d_fuel = (\<lambda>_. 0)\<rparr>"

definition survive_pick_fuel :: scav_draws where
  "survive_pick_fuel = \<lparr>d_survive = 0, d_frac = 0, d_pick = 1, d_fuel = (\<lambda>_. 0)\<rparr>"

definition always_fail :: scav_draws where
  "always_fail = \<lparr>d_survive = 2 ^ 53 - 1, d_frac = 0, d_pick = 0, d_fuel = (\<lambda>_. 0)\<rparr>"

subsection \<open>Well-formed sessions\<close>

text \<open>
  What every state of a running session satisfies: no ledger counter is negative, a level
  is active exactly when the tank is not driving, fuel is positive unless the level was
  started by running out of fuel, and a session without crew has been torn down.
\<close>

definition ledger_ok :: "game \<Rightarrow> bool" where
  "ledger_ok s = (0 \<le> fuel s \<and> 0 \<le> shells s \<and> 0 \<le> guns s \<and> 0 \<le> crew s \<and> 0 \<le> parts s \<and> 0 \<le> ammo s)"

definition session_ok :: "game \<Rightarrow> bool" where
  "session_ok s = (ledger_ok s
     \<and> lv_active (level s) = (\<not> driving s)
     \<and> (if out_of_fuel s then \<not> driving s else 1 \<le> fuel s)
     \<and> (if crew s \<le> 0 then destroyed s else True))"

text \<open>Further sample states: the session after the shot at the zombie; the session after
  200 fuel ticks; the session after the breakdown and three, then four, failed scavenges.\<close>

definition after_shot_game :: game where
  "after_shot_game = run [Canvas_click click_on_zombie] breakdown_game"

definition out_of_fuel_game :: game where
  "out_of_fuel_game = run (replicate 200 (Fuel_tick sample_draws)) initial_game"

definition last_crew_game :: game where
  "last_crew_game = run (replicate 3 (Send_scavenger Quick False always_fail)) breakdown_game"

definition game_over_game :: game where
  "game_over_game = run (replicate 4 (Send_scavenger Quick False always_fail)) breakdown_game"

section \<open>Properties\<close>

lemma count_remaining_append:
  "count_remaining_items (append_sprite m v sp) k =
     count_remaining_items m k + (if sp_kind sp = k then 1 else 0)"
  by (cases v)
    (simp_all add: append_sprite_def set_sprites_def count_remaining_items_def all_sprites_def
      count_kind_def)

lemma count_remaining_place_loop:
  "count_remaining_items (place_loop dr k n m) k' =
     count_remaining_items m k' + (if k' = k then int n else 0)"
  by (induction n) (simp_all add: count_remaining_append new_sprite_def)

lemma count_remaining_place:
  "count_remaining_items (place d k n m) k' =
     count_remaining_items m k' + (if k' = k then max 0 n else 0)"
  by (simp add: place_def count_remaining_place_loop)

lemma count_remaining_empty: "count_remaining_items (\<lambda>_. []) k = 0"
  by (simp add: count_remaining_items_def all_sprites_def count_kind_def)

lemma count_remaining_populate:
  "count_remaining_items (populate_outside_sprites d lv) k =
     (case k of Fuel \<Rightarrow> max 0 (lv_fuel_cans lv) | Part \<Rightarrow> max 0 (lv_parts lv)
      | Shell \<Rightarrow> max 0 (lv_shells lv) | Zombie \<Rightarrow> max 0 (lv_zombies lv)
      | Ammo \<Rightarrow> max 0 (lv_ammo_boxes lv))"
  by (cases k) (simp_all add: populate_outside_sprites_def count_remaining_place count_remaining_empty)

text \<open>
  Claim C9. Every level start, whatever its reason and whatever the random draws, yields
  a pool with at least one part: the part counter of the level is at least 1, and that
  many part sprites lie on the map that scavenging reads.
\<close>

theorem start_level_parts_ge_1:
  "1 \<le> lv_parts (level (start_level r d s)) \<and>
   count_remaining_items (sprites_by_view (start_level r d s)) Part
     = lv_parts (level (start_level r d s))"
  by (simp add: start_level_def Let_def count_remaining_populate)

subsection \<open>The random source stays in range\<close>

lemma random_random_range: "0 \<le> random_random r \<and> random_random r < 1"
proof -
  have "r mod 2 ^ 53 < (2::nat) ^ 53" by simp
  then have "real (r mod 2 ^ 53) < 2 ^ 53"
    by (metis of_nat_less_iff of_nat_numeral of_nat_power)
  then show ?thesis by (simp add: random_random_def)
qed

lemma max_frac_range: "0 < max_frac a \<and> max_frac a \<le> 1"
  by (cases a) simp_all

lemma frac_range: "0 \<le> random_random r * max_frac a \<and> random_random r * max_frac a \<le> 1"
proof -
  have a: "0 \<le> random_random r" "random_random r \<le> 1" using random_random_range[of r] by auto
  have b: "0 \<le> max_frac a" "max_frac a \<le> 1" using max_frac_range[of a] by auto
  have "random_random r * max_frac a \<le> 1 * 1" using a b by (intro mult_mono) auto
  then show ?thesis using a b by simp
qed

lemma py_int_fraction:
  assumes "0 \<le> n" "0 \<le> fr" "fr \<le> 1"
  shows "0 \<le> py_int (real_of_int n * fr) \<and> py_int (real_of_int n * fr) \<le> n"
proof -
  have nn: "0 \<le> real_of_int n * fr" using assms by simp
  have "real_of_int n * fr \<le> real_of_int n * 1" using assms by (intro mult_left_mono) auto
  then have "\<lfloor>real_of_int n * fr\<rfloor> \<le> n" by (simp add: floor_le_iff) 
  moreover have "0 \<le> \<lfloor>real_of_int n * fr\<rfloor>" using nn by simp
  ultimately show ?thesis using nn by (simp add: py_int_def)
qed

lemma choices_member: "k \<in> set (choices avail) \<Longrightarrow> 0 < avail k"
  by (auto simp: choices_def split: if_splits)

lemma choices_nonempty:
  "avail Part + avail Shell + avail Fuel + avail Ammo > 0 \<Longrightarrow>
   0 \<le> avail Part \<Longrightarrow> 0 \<le> avail Shell \<Longrightarrow> 0 \<le> avail Fuel \<Longrightarrow> 0 \<le> avail Ammo \<Longrightarrow>
   choices avail \<noteq> []"
  by (auto simp: choices_def)

lemma random_choice_member: "xs \<noteq> [] \<Longrightarrow> random_choice xs r \<in> set xs"
  by (simp add: random_choice_def)

lemma scavenge_loot_bounds:
  assumes av: "\<And>k. 0 \<le> avail k" and fr: "0 \<le> fr" "fr \<le> 1"
  shows "0 \<le> got_parts (scavenge_loot fr p avail) \<and> got_parts (scavenge_loot fr p avail) \<le> avail Part
       \<and> 0 \<le> got_shells (scavenge_loot fr p avail) \<and> got_shells (scavenge_loot fr p avail) \<le> avail Shell
       \<and> 0 \<le> got_fuel_cans (scavenge_loot fr p avail) \<and> got_fuel_cans (scavenge_loot fr p avail) \<le> avail Fuel
       \<and> 0 \<le> got_ammo_boxes (scavenge_loot fr p avail) \<and> got_ammo_boxes (scavenge_loot fr p avail) \<le> avail Ammo"
proof -
  note b = py_int_fraction[OF av fr]
  let ?g = "\<lparr>got_parts = py_int (real_of_int (avail Part) * fr),
               got_shells = py_int (real_of_int (avail Shell) * fr),
               got_fuel_cans = py_int (real_of_int (avail Fuel) * fr),
               got_ammo_boxes = py_int (real_of_int (avail Ammo) * fr)\<rparr>"
  show ?thesis
  proof (cases "got_parts ?g + got_shells ?g + got_fuel_cans ?g + got_ammo_boxes ?g = 0
            \<and> avail Part + avail Shell + avail Fuel + avail Ammo > 0")
    case False
    then have "scavenge_loot fr p avail = ?g"
      unfolding scavenge_loot_def Let_def by (simp only: if_False)
    then show ?thesis using b[of Part] b[of Shell] b[of Fuel] b[of Ammo] by simp
  next
    case True
    let ?pick = "random_choice (choices avail) p"
    have ne: "choices avail \<noteq> []" using True av by (intro choices_nonempty) auto
    have pm: "?pick \<in> set (choices avail)" by (rule random_choice_member[OF ne])
    have pk: "0 < avail ?pick" using pm by (rule choices_member)
    have nz: "?pick \<noteq> Zombie" using pm by (auto simp: choices_def split: if_splits)
    have z: "py_int (real_of_int (avail Part) * fr) = 0" "py_int (real_of_int (avail Shell) * fr) = 0"
       "py_int (real_of_int (avail Fuel) * fr) = 0" "py_int (real_of_int (avail Ammo) * fr) = 0"
      using True b[of Part] b[of Shell] b[of Fuel] b[of Ammo] by auto
    show ?thesis using pk nz av[of Part] av[of Shell] av[of Fuel] av[of Ammo] True
      by (cases ?pick) (simp_all add: scavenge_loot_def Let_def z)
  qed
qed

lemma randint_range: "a \<le> b \<Longrightarrow> a \<le> randint a b r \<and> randint a b r \<le> b"
proof -
  assume "a \<le> b"
  then have "0 < nat (b - a + 1)" by simp
  then have "r mod nat (b - a + 1) < nat (b - a + 1)" by (rule mod_less_divisor)
  then have "int (r mod nat (b - a + 1)) < int (nat (b - a + 1))" by (simp only: of_nat_less_iff)
  then show ?thesis using \<open>a \<le> b\<close> by (simp add: randint_def)
qed

lemma fuel_gained_range:
  "FUEL_CAN_MIN * int n \<le> fuel_gained fd n \<and> fuel_gained fd n \<le> FUEL_CAN_MAX * int n"
proof (induction n)
  case 0 show ?case by simp
next
  case (Suc n)
  have "FUEL_CAN_MIN \<le> randint FUEL_CAN_MIN FUEL_CAN_MAX (fd n) \<and> randint FUEL_CAN_MIN FUEL_CAN_MAX (fd n) \<le> FUEL_CAN_MAX"
    by (rule randint_range) (simp add: tunables)
  with Suc show ?case by (simp add: algebra_simps)
qed

lemma count_kind_nonneg: "0 \<le> count_kind k sps" by (simp add: count_kind_def)
lemma count_kind_Cons: "count_kind k (sp # sps) = (if sp_kind sp = k then 1 else 0) + count_kind k sps"
  by (simp add: count_kind_def)
lemma count_kind_Nil: "count_kind k [] = 0" by (simp add: count_kind_def)
lemma count_kind_append: "count_kind k (xs @ ys) = count_kind k xs + count_kind k ys"
  by (simp add: count_kind_def)

lemma remove_kind_count:
  "count_kind k' (fst (remove_kind k n sps)) =
     count_kind k' sps - (if k' = k then min (max 0 n) (count_kind k sps) else 0)
   \<and> snd (remove_kind k n sps) = (if n \<le> 0 then n else n - min n (count_kind k sps))"
proof (induction sps arbitrary: n)
  case Nil
  show ?case by (simp add: count_kind_Nil)
next
  case (Cons sp sps)
  show ?case
    using Cons[of n] Cons[of "n - 1"] count_kind_nonneg[of k sps]
    by (auto simp: count_kind_Cons split_beta)
qed

subsection \<open>Removing sprites from the map\<close>

lemma set_sprites_apply: "set_sprites m v sps v' = (if v' = v then sps else m v')"
  by (simp add: set_sprites_def)

lemma count_remaining_set_sprites:
  "count_remaining_items (set_sprites m v sps) k =
     count_remaining_items m k - count_kind k (m v) + count_kind k sps"
  by (cases v) (simp_all add: set_sprites_def count_remaining_items_def all_sprites_def count_kind_append)

lemma remove_views_other:
  "k' \<noteq> k \<Longrightarrow> count_remaining_items (remove_views k n vs m) k' = count_remaining_items m k'"
proof (induction vs arbitrary: n m)
  case Nil show ?case by simp
next
  case (Cons v vs)
  show ?case using Cons.prems remove_kind_count[of k' k n "m v"]
    by (simp add: split_beta Cons.IH[OF Cons.prems] count_remaining_set_sprites)
qed

lemma remove_views_same:
  "distinct vs \<Longrightarrow> n \<le> (\<Sum>v\<leftarrow>vs. count_kind k (m v)) \<Longrightarrow>
   count_remaining_items (remove_views k n vs m) k = count_remaining_items m k - max 0 n"
proof (induction vs arbitrary: n m)
  case Nil then show ?case by simp
next
  case (Cons v vs)
  show ?case
  proof (cases "n \<le> 0")
    case True then show ?thesis by simp
  next
    case False
    let ?r = "remove_kind k n (m v)"
    have rk: "count_kind k (fst ?r) = count_kind k (m v) - min n (count_kind k (m v))"
         "snd ?r = n - min n (count_kind k (m v))"
      using remove_kind_count[of k k n "m v"] False by auto
    have same: "(\<Sum>v'\<leftarrow>vs. count_kind k (set_sprites m v (fst ?r) v')) = (\<Sum>v'\<leftarrow>vs. count_kind k (m v'))"
      using Cons.prems(1) by (intro arg_cong[where f=sum_list] map_cong) (auto simp: set_sprites_apply)
    have sum_nonneg: "0 \<le> (\<Sum>v'\<leftarrow>vs. count_kind k (m v'))"
      by (rule sum_list_nonneg) (auto simp: count_kind_nonneg)
    have "n \<le> count_kind k (m v) + (\<Sum>v'\<leftarrow>vs. count_kind k (m v'))"
      using Cons.prems(2) by simp
    then have le: "snd ?r \<le> (\<Sum>v'\<leftarrow>vs. count_kind k (set_sprites m v (fst ?r) v'))"
      unfolding same rk using sum_nonneg by (simp add: min_def)
    have d: "distinct vs" using Cons.prems(1) by simp
    have "count_remaining_items (remove_views k n (v # vs) m) k
        = count_remaining_items (remove_views k (snd ?r) vs (set_sprites m v (fst ?r))) k"
      using False by (simp add: split_beta)
    also have "\<dots> = count_remaining_items (set_sprites m v (fst ?r)) k - max 0 (snd ?r)"
      by (rule Cons.IH[OF d le])
    finally show ?thesis using rk False count_kind_nonneg[of k "m v"]
      by (simp add: count_remaining_set_sprites)
  qed
qed

lemma remove_items_from_map_count:
  assumes "n \<le> count_remaining_items m k"
  shows "count_remaining_items (remove_items_from_map k n m) k' =
           count_remaining_items m k' - (if k' = k then max 0 n else 0)"
proof (cases "k' = k")
  case False
  then show ?thesis
    unfolding remove_items_from_map_def by (simp only: remove_views_other[OF False] if_False diff_0_right)
next
  case True
  have d: "distinct [OUT_DRIVER, OUT_LEFT, OUT_RIGHT]" by simp
  have le: "n \<le> (\<Sum>v\<leftarrow>[OUT_DRIVER, OUT_LEFT, OUT_RIGHT]. count_kind k (m v))"
    using assms by (simp add: count_remaining_items_def all_sprites_def count_kind_append)
  show ?thesis
    unfolding remove_items_from_map_def True
    by (simp only: remove_views_same[OF d le] if_True refl)
qed

subsection \<open>What a scavenger brings back\<close>

lemma count_remaining_nonneg: "0 \<le> count_remaining_items m k"
  by (simp add: count_remaining_items_def count_kind_nonneg)

lemma loot_of_bounds:
  "0 \<le> got_parts (loot_of a d s) \<and> got_parts (loot_of a d s) \<le> count_remaining_items (sprites_by_view s) Part
   \<and> 0 \<le> got_shells (loot_of a d s) \<and> got_shells (loot_of a d s) \<le> count_remaining_items (sprites_by_view s) Shell
   \<and> 0 \<le> got_fuel_cans (loot_of a d s) \<and> got_fuel_cans (loot_of a d s) \<le> count_remaining_items (sprites_by_view s) Fuel
   \<and> 0 \<le> got_ammo_boxes (loot_of a d s) \<and> got_ammo_boxes (loot_of a d s) \<le> count_remaining_items (sprites_by_view s) Ammo"
  unfolding loot_of_def
  using frac_range[of "d_frac d" a]
  by (intro scavenge_loot_bounds count_remaining_nonneg) auto

lemma loot_of_guns: "loot_of a d (s\<lparr>guns := n\<rparr>) = loot_of a d s"
  by (simp add: loot_of_def)

text \<open>The state a surviving scavenger leaves behind.\<close>

lemma resolve_scavenge_survived:
  assumes "survived a give_gun d s"
  shows "snd (resolve_scavenge a give_gun d s) =
    s\<lparr>parts := parts s + got_parts (loot_of a d s),
      shells := shells s + got_shells (loot_of a d s),
      fuel := fuel s + fuel_gained (d_fuel d) (nat (got_fuel_cans (loot_of a d s))),
      ammo := ammo s + got_ammo_boxes (loot_of a d s) * AMMO_PER_BOX,
      sprites_by_view :=
        remove_items_from_map Ammo (got_ammo_boxes (loot_of a d s))
          (remove_items_from_map Fuel (got_fuel_cans (loot_of a d s))
            (remove_items_from_map Shell (got_shells (loot_of a d s))
              (remove_items_from_map Part (got_parts (loot_of a d s)) (sprites_by_view s))))\<rparr>"
  using assms by (cases "gun_committed give_gun s") (simp_all add: resolve_scavenge_def Let_def loot_of_guns)

lemma removed_counts:
  assumes "0 \<le> gp" "gp \<le> count_remaining_items m Part"
      "0 \<le> gs" "gs \<le> count_remaining_items m Shell"
      "0 \<le> gf" "gf \<le> count_remaining_items m Fuel"
      "0 \<le> ga" "ga \<le> count_remaining_items m Ammo"
  shows "count_remaining_items
     (remove_items_from_map Ammo ga (remove_items_from_map Fuel gf
        (remove_items_from_map Shell gs (remove_items_from_map Part gp m)))) k
     = count_remaining_items m k -
        (case k of Part \<Rightarrow> gp | Shell \<Rightarrow> gs | Fuel \<Rightarrow> gf | Ammo \<Rightarrow> ga | Zombie \<Rightarrow> 0)"
proof -
  let ?m1 = "remove_items_from_map Part gp m"
  let ?m2 = "remove_items_from_map Shell gs ?m1"
  let ?m3 = "remove_items_from_map Fuel gf ?m2"
  have c1: "count_remaining_items ?m1 k' = count_remaining_items m k' - (if k' = Part then max 0 gp else 0)" for k'
    by (rule remove_items_from_map_count) (rule assms)
  have "gs \<le> count_remaining_items ?m1 Shell" using assms by (simp add: c1)
  then have c2: "count_remaining_items ?m2 k' = count_remaining_items ?m1 k' - (if k' = Shell then max 0 gs else 0)" for k'
    by (rule remove_items_from_map_count)
  have "gf \<le> count_remaining_items ?m2 Fuel" using assms by (simp add: c1 c2)
  then have c3: "count_remaining_items ?m3 k' = count_remaining_items ?m2 k' - (if k' = Fuel then max 0 gf else 0)" for k'
    by (rule remove_items_from_map_count)
  have "ga \<le> count_remaining_items ?m3 Ammo" using assms by (simp add: c1 c2 c3)
  then have c4: "count_remaining_items (remove_items_from_map Ammo ga ?m3) k' = count_remaining_items ?m3 k' - (if k' = Ammo then max 0 ga else 0)" for k'
    by (rule remove_items_from_map_count)
  show ?thesis using assms by (cases k) (simp_all add: c1 c2 c3 c4)
qed

subsection \<open>The session invariant\<close>

lemma session_ok_initial: "session_ok initial_game"
  by (simp add: session_ok_def ledger_ok_def initial_game_def initial_level_def tunables)

lemma session_ok_start_level:
  "session_ok s \<Longrightarrow> driving s \<Longrightarrow> r \<noteq> Out_of_fuel \<Longrightarrow> session_ok (start_level r d s)"
  by (auto simp: session_ok_def ledger_ok_def start_level_def Let_def split: if_splits)

lemma session_ok_driver_stop: "session_ok s \<Longrightarrow> session_ok (driver_stop d s)"
  by (simp add: driver_stop_def session_ok_start_level)

lemma session_ok_breakdown: "session_ok s \<Longrightarrow> session_ok (trigger_breakdown_level d s)"
  by (simp add: trigger_breakdown_level_def session_ok_start_level)

lemma session_ok_fuel_tick: "session_ok s \<Longrightarrow> session_ok (fuel_tick d s)"
  by (auto simp: fuel_tick_def trigger_out_of_fuel_level_def session_ok_def ledger_ok_def
      start_level_def Let_def tunables split: if_splits)

lemma session_ok_driver_start: "session_ok s \<Longrightarrow> session_ok (snd (driver_start s))"
  by (auto simp: driver_start_def show_view_def start_timers_for_driving_def session_ok_def
      ledger_ok_def split: if_splits)

lemma session_ok_fix_engine: "session_ok s \<Longrightarrow> session_ok (snd (fix_engine s))"
  by (auto simp: fix_engine_def session_ok_def ledger_ok_def split: if_splits)

lemma session_ok_on_canvas_click: "session_ok s \<Longrightarrow> session_ok (snd (on_canvas_click e s))"
  by (auto simp: on_canvas_click_def del_sprite_def session_ok_def ledger_ok_def tunables
      split: if_splits view.splits option.splits)

lemma session_ok_show_view: "session_ok s \<Longrightarrow> session_ok (show_view v s)"
  by (simp add: show_view_def session_ok_def ledger_ok_def)

lemma resolve_scavenge_died:
  "\<not> survived a give_gun d s \<Longrightarrow>
   snd (resolve_scavenge a give_gun d s) =
     s\<lparr>guns := (if give_gun \<and> guns s > 0 then guns s - 1 else guns s),
       crew := crew s - 1,
       destroyed := (if crew s - 1 \<le> 0 then True else destroyed s)\<rparr>"
  by (simp add: resolve_scavenge_def gun_committed_def Let_def)

lemma session_ok_send_scavenger: "session_ok s \<Longrightarrow> session_ok (snd (send_scavenger a g d s))"
proof (cases "\<not> lv_active (level s) \<or> crew s \<le> 0")
  case True
  assume "session_ok s" with True show ?thesis by (auto simp: send_scavenger_def)
next
  case False
  assume ok: "session_ok s"
  have eq: "send_scavenger a g d s = resolve_scavenge a g d s" using False by (simp add: send_scavenger_def)
  show ?thesis
  proof (cases "survived a g d s")
    case True
    have fg: "0 \<le> fuel_gained (d_fuel d) (nat (got_fuel_cans (loot_of a d s)))"
      using fuel_gained_range[of "nat (got_fuel_cans (loot_of a d s))" "d_fuel d"] by (simp add: tunables)
    show ?thesis unfolding eq resolve_scavenge_survived[OF True]
      using ok loot_of_bounds[of a d s] fg
      by (auto simp: session_ok_def ledger_ok_def tunables split: if_splits)
  next
    case dead: False
    show ?thesis unfolding eq resolve_scavenge_died[OF dead]
      using ok False by (auto simp: session_ok_def ledger_ok_def split: if_splits)
  qed
qed

lemma session_ok_handle: "session_ok s \<Longrightarrow> session_ok (snd (handle c s))"
  by (cases c) (simp_all add: session_ok_driver_stop session_ok_driver_start session_ok_fuel_tick
    session_ok_breakdown session_ok_fix_engine session_ok_on_canvas_click session_ok_send_scavenger
    session_ok_show_view)

lemma session_ok_step: "session_ok s \<Longrightarrow> session_ok (snd (mainloop_step c s))"
  by (simp add: mainloop_step_def session_ok_handle)

lemma reachable_session_ok: "reachable s \<Longrightarrow> session_ok s"
  by (induction rule: reachable.induct) (simp_all add: session_ok_initial session_ok_step)

lemma reachable_run: "reachable s \<Longrightarrow> reachable (run cs s)"
  by (induction cs arbitrary: s) (simp_all add: reachable_step)

subsection \<open>The sample states, evaluated\<close>

lemma sample_new_sprite:
  "new_sprite k (0, 0, j) = \<lparr>sp_kind = k, sp_x = 80, sp_y = 533, sp_w = 50, sp_h = 50\<rparr>"
  "new_sprite k (20, 67, j) = \<lparr>sp_kind = k, sp_x = 100, sp_y = 600, sp_w = 50, sp_h = 50\<rparr>"
  by (simp_all add: new_sprite_def randint_def tunables)

lemma sample_populate:
  "populate_outside_sprites sample_draws
     \<lparr>lv_active = True, lv_reason = r, lv_fuel_cans = 1, lv_parts = 1,
       lv_shells = 0, lv_zombies = 1, lv_ammo_boxes = 1\<rparr> = sample_sprites"
proof
  fix v
  show "populate_outside_sprites sample_draws
     \<lparr>lv_active = True, lv_reason = r, lv_fuel_cans = 1, lv_parts = 1,
       lv_shells = 0, lv_zombies = 1, lv_ammo_boxes = 1\<rparr> v = sample_sprites v"
    by (cases v)
      (simp_all add: populate_outside_sprites_def place_def sample_draws_def append_sprite_def
        random_choice_def set_sprites_def sample_new_sprite sample_sprites_def)
qed

lemma sample_start_level:
  "start_level r sample_draws s =
     s\<lparr>driving := False,
       level := \<lparr>lv_active = True, lv_reason = r, lv_fuel_cans = 1, lv_parts = 1,
                 lv_shells = 0, lv_zombies = 1, lv_ammo_boxes = 1\<rparr>,
       engine_broken := (r = Engine_breakdown), out_of_fuel := (r = Out_of_fuel),
       sprites_by_view := sample_sprites\<rparr>"
proof -
  have "randint 1 3 0 = 1" "randint 0 3 0 = 0" "randint 1 6 0 = 1" "randint 1 2 0 = 1"
    by (simp_all add: randint_def)
  moreover have "d_parts sample_draws = 0" "d_fuel_cans sample_draws = 0" "d_shells sample_draws = 0"
      "d_zombies sample_draws = 0" "d_ammo_boxes sample_draws = 0"
    by (simp_all add: sample_draws_def)
  ultimately show ?thesis
    unfolding start_level_def Let_def
    by (simp add: sample_populate)
qed

lemma breakdown_game_eq: "breakdown_game = \<lparr>fuel = 200, parts = 0, shells = 6, guns = 4, crew = 4, ammo = 200,
   driving = False, engine_broken = True, out_of_fuel = False,
   level = \<lparr>lv_active = True, lv_reason = Engine_breakdown, lv_fuel_cans = 1, lv_parts = 1,
     lv_shells = 0, lv_zombies = 1, lv_ammo_boxes = 1\<rparr>,
   current_view_key = Outside OUT_LEFT, sprites_by_view = sample_sprites, destroyed = False\<rparr>"
  by (simp add: breakdown_game_def mainloop_step_def trigger_breakdown_level_def show_view_def
      sample_start_level initial_game_def tunables)

lemma sample_counts:
  "count_remaining_items sample_sprites Part = 1" "count_remaining_items sample_sprites Shell = 0"
  "count_remaining_items sample_sprites Fuel = 1" "count_remaining_items sample_sprites Ammo = 1"
  "count_remaining_items sample_sprites Zombie = 1"
  by (simp_all add: count_remaining_items_def all_sprites_def count_kind_def sample_sprites_def)

lemma reachable_breakdown_game: "reachable breakdown_game"
  unfolding breakdown_game_def by (rule reachable_run) (rule reachable_init)

lemma chance_range: "5 / 100 \<le> scavenge_chance a g s \<and> scavenge_chance a g s \<le> 95 / 100"
  by (simp add: scavenge_chance_def clamp_def Let_def tunables)

lemma survived_always_survive: "survived a g always_survive s"
  using chance_range[of a g s] by (simp add: survived_def always_survive_def random_random_def)

lemma survived_always_fail: "\<not> survived a g always_fail s"
proof -
  have "random_random (2 ^ 53 - 1) = (2 ^ 53 - 1) / 2 ^ 53"
    by (simp add: random_random_def)
  then show ?thesis using chance_range[of a g s] by (simp add: survived_def always_fail_def)
qed

lemma run_append: "run (cs @ cs') s = run cs' (run cs s)"
  by (induction cs arbitrary: s) simp_all

lemma run_destroyed: "destroyed s \<Longrightarrow> run cs s = s"
  by (induction cs) (simp_all add: mainloop_step_def)

lemma fuel_ticks: "n < 200 \<Longrightarrow>
   run (replicate n (Fuel_tick d)) initial_game = initial_game\<lparr>fuel := 200 - int n\<rparr>"
proof (induction n)
  case 0 show ?case by (simp add: initial_game_def tunables)
next
  case (Suc n)
  have "run (replicate (Suc n) (Fuel_tick d)) initial_game
      = run [Fuel_tick d] (run (replicate n (Fuel_tick d)) initial_game)"
    by (simp only: replicate_Suc replicate_append_same[symmetric] run_append)
  also have "\<dots> = initial_game\<lparr>fuel := 200 - int (Suc n)\<rparr>"
    using Suc by (simp add: mainloop_step_def fuel_tick_def initial_game_def tunables Let_def)
  finally show ?case .
qed

lemma out_of_fuel_game_eq:
  "out_of_fuel_game = start_level Out_of_fuel sample_draws (initial_game\<lparr>fuel := 0\<rparr>)"
proof -
  have n: "(200::nat) = Suc 199" by simp
  have r: "run (replicate 199 (Fuel_tick sample_draws)) initial_game = initial_game\<lparr>fuel := 1\<rparr>"
    using fuel_ticks[of 199 sample_draws] by simp
  have "out_of_fuel_game = run [Fuel_tick sample_draws] (run (replicate 199 (Fuel_tick sample_draws)) initial_game)"
    unfolding out_of_fuel_game_def n
    by (simp only: replicate_Suc replicate_append_same[symmetric] run_append)
  also have "\<dots> = snd (mainloop_step (Fuel_tick sample_draws) (initial_game\<lparr>fuel := 1\<rparr>))"
    unfolding r by simp
  also have "\<dots> = start_level Out_of_fuel sample_draws (initial_game\<lparr>fuel := 0\<rparr>)"
    by (simp add: mainloop_step_def fuel_tick_def trigger_out_of_fuel_level_def
        initial_game_def tunables Let_def)
  finally show ?thesis .
qed

lemma reachable_out_of_fuel_game: "reachable out_of_fuel_game"
  unfolding out_of_fuel_game_def by (rule reachable_run) (rule reachable_init)

lemma failed_scavenge_step:
  "lv_active (level s) \<Longrightarrow> 0 < crew s \<Longrightarrow> \<not> destroyed s \<Longrightarrow>
   snd (mainloop_step (Send_scavenger a False always_fail) s) =
     s\<lparr>crew := crew s - 1, destroyed := (if crew s - 1 \<le> 0 then True else destroyed s)\<rparr>"
  by (simp add: mainloop_step_def send_scavenger_def resolve_scavenge_died[OF survived_always_fail])

lemma game_over_game_eq: "game_over_game = breakdown_game\<lparr>crew := 0, destroyed := True\<rparr>"
proof -
  have r: "replicate 4 c = [c, c, c, c]" for c :: command by (simp add: numeral_eq_Suc)
  show ?thesis
    unfolding game_over_game_def r
    by (simp add: failed_scavenge_step breakdown_game_eq)
qed

lemma reachable_game_over_game: "reachable game_over_game"
  unfolding game_over_game_def by (rule reachable_run) (rule reachable_breakdown_game)

subsection \<open>Shooting\<close>

lemma find_clicked_Some: "find_clicked e sps n = Some i \<Longrightarrow> i < n \<and> hit e (sps ! i)"
  by (induction n) (auto split: if_splits)

lemma count_kind_del:
  assumes "i < length sps"
  shows "count_kind k (take i sps @ drop (Suc i) sps) =
           count_kind k sps - (if sp_kind (sps ! i) = k then 1 else 0)"
proof -
  have "count_kind k sps = count_kind k (take i sps @ sps ! i # drop (Suc i) sps)"
    using assms by (simp only: id_take_nth_drop[symmetric])
  then show ?thesis by (simp add: count_kind_append count_kind_Cons)
qed

lemma del_sprite_counts:
  assumes "find_clicked e (sprites_by_view s v) (length (sprites_by_view s v)) = Some i"
  shows "count_kind Zombie (sprites_by_view (del_sprite v i s) v) = count_kind Zombie (sprites_by_view s v) - 1"
    and "count_remaining_items (sprites_by_view (del_sprite v i s)) Zombie =
           count_remaining_items (sprites_by_view s) Zombie - 1"
    and "level (del_sprite v i s) = level s"
proof -
  from find_clicked_Some[OF assms]
  have i: "i < length (sprites_by_view s v)" and z: "sp_kind (sprites_by_view s v ! i) = Zombie"
    by (auto simp: hit_def)
  show "count_kind Zombie (sprites_by_view (del_sprite v i s) v) = count_kind Zombie (sprites_by_view s v) - 1"
    using count_kind_del[OF i, of Zombie] z by (simp add: del_sprite_def set_sprites_apply)
  then show "count_remaining_items (sprites_by_view (del_sprite v i s)) Zombie =
           count_remaining_items (sprites_by_view s) Zombie - 1"
    using count_kind_del[OF i, of Zombie] z by (simp add: del_sprite_def count_remaining_set_sprites)
  show "level (del_sprite v i s) = level s" by (simp add: del_sprite_def)
qed

lemma del_sprite_ledger [simp]:
  "del_sprite v i (s\<lparr>ammo := n\<rparr>) = (del_sprite v i s)\<lparr>ammo := n\<rparr>"
  "del_sprite v i (s\<lparr>shells := n\<rparr>) = (del_sprite v i s)\<lparr>shells := n\<rparr>"
  by (simp_all add: del_sprite_def)

lemma on_canvas_click_changed:
  assumes "snd (on_canvas_click e s) \<noteq> s"
  shows "count_remaining_items (sprites_by_view (snd (on_canvas_click e s))) Zombie
            = count_remaining_items (sprites_by_view s) Zombie - 1"
    and "level (snd (on_canvas_click e s)) = level s"
    and "guns (snd (on_canvas_click e s)) = guns s"
proof -
  from assms obtain v where v: "current_view_key s = Outside v"
    by (cases "current_view_key s") (auto simp: on_canvas_click_def)
  from assms v obtain i where i: "find_clicked e (sprites_by_view s v) (length (sprites_by_view s v)) = Some i"
    by (cases "find_clicked e (sprites_by_view s v) (length (sprites_by_view s v))")
       (auto simp: on_canvas_click_def)
  note d = del_sprite_counts[OF i]
  have g: "guns (del_sprite v i s) = guns s" by (simp add: del_sprite_def)
  from assms v i have c: "snd (on_canvas_click e s) = (del_sprite v i s)\<lparr>ammo := ammo s - MG_AMMO_COST\<rparr>
      \<or> snd (on_canvas_click e s) = (del_sprite v i s)\<lparr>shells := shells s - 1\<rparr>"
    by (auto simp: on_canvas_click_def split: if_splits)
  show "count_remaining_items (sprites_by_view (snd (on_canvas_click e s))) Zombie
            = count_remaining_items (sprites_by_view s) Zombie - 1"
    using c d by auto
  show "level (snd (on_canvas_click e s)) = level s" using c d by auto
  show "guns (snd (on_canvas_click e s)) = guns s" using c g by auto
qed

text \<open>
  Claim C1. In v5 a shot that hits removes exactly one zombie sprite from the view the
  player looks through, and one from the total over the three views, but the zombie
  counter of the level, which the survival chance reads, keeps its value.
\<close>

theorem shot_removes_sprite_keeps_counter:
  assumes "snd (on_canvas_click e s) \<noteq> s"
  shows "(\<exists>v. current_view_key s = Outside v \<and>
            count_kind Zombie (sprites_by_view (snd (on_canvas_click e s)) v)
              = count_kind Zombie (sprites_by_view s v) - 1)
       \<and> count_remaining_items (sprites_by_view (snd (on_canvas_click e s))) Zombie
            = count_remaining_items (sprites_by_view s) Zombie - 1
       \<and> lv_zombies (level (snd (on_canvas_click e s))) = lv_zombies (level s)"
proof -
  from assms obtain v where v: "current_view_key s = Outside v"
    by (cases "current_view_key s") (auto simp: on_canvas_click_def)
  from assms v obtain i where i: "find_clicked e (sprites_by_view s v) (length (sprites_by_view s v)) = Some i"
    by (cases "find_clicked e (sprites_by_view s v) (length (sprites_by_view s v))")
       (auto simp: on_canvas_click_def)
  note d = del_sprite_counts[OF i]
  from assms v i have "snd (on_canvas_click e s) = (del_sprite v i s)\<lparr>ammo := ammo s - MG_AMMO_COST\<rparr>
      \<or> snd (on_canvas_click e s) = (del_sprite v i s)\<lparr>shells := shells s - 1\<rparr>"
    by (auto simp: on_canvas_click_def split: if_splits)
  then show ?thesis using v d by auto
qed

text \<open>
  The sample session: the level starts with one zombie, in the left view. A left click
  on it spends a shell and removes the sprite; no zombie is left on the map, the counter
  of the level still says 1, and a quick unarmed scavenge gets the chance 0.70 where the
  formula for zero remaining zombies gives 0.75.
\<close>

theorem shot_leaves_zombie_counter_stale:
  "snd (on_canvas_click click_on_zombie breakdown_game) \<noteq> breakdown_game
   \<and> reachable (snd (mainloop_step (Canvas_click click_on_zombie) breakdown_game))
   \<and> snd (mainloop_step (Canvas_click click_on_zombie) breakdown_game)
        = snd (on_canvas_click click_on_zombie breakdown_game)
   \<and> count_remaining_items (sprites_by_view breakdown_game) Zombie = 1
   \<and> lv_zombies (level breakdown_game) = 1
   \<and> shells (snd (on_canvas_click click_on_zombie breakdown_game)) = 5
   \<and> count_remaining_items (sprites_by_view (snd (on_canvas_click click_on_zombie breakdown_game))) Zombie = 0
   \<and> lv_zombies (level (snd (on_canvas_click click_on_zombie breakdown_game))) = 1
   \<and> scavenge_chance Quick False (snd (on_canvas_click click_on_zombie breakdown_game)) = 70 / 100
   \<and> spec_chance Quick 0 False 4 = 75 / 100"
proof -
  have c: "on_canvas_click click_on_zombie breakdown_game =
      ([], del_sprite OUT_LEFT 0 (breakdown_game\<lparr>shells := 5\<rparr>))"
    by (simp add: on_canvas_click_def breakdown_game_eq sample_sprites_def click_on_zombie_def hit_def)
  have ne: "snd (on_canvas_click click_on_zombie breakdown_game) \<noteq> breakdown_game"
    unfolding c by (simp add: breakdown_game_eq del_sprite_def)
  have nd: "\<not> destroyed breakdown_game" by (simp add: breakdown_game_eq)
  have ms: "snd (mainloop_step (Canvas_click click_on_zombie) breakdown_game)
        = snd (on_canvas_click click_on_zombie breakdown_game)"
    by (simp add: mainloop_step_def nd)
  have r: "reachable (snd (mainloop_step (Canvas_click click_on_zombie) breakdown_game))"
    by (rule reachable_step) (rule reachable_breakdown_game)
  have z: "count_remaining_items (sprites_by_view breakdown_game) Zombie = 1"
    by (simp add: breakdown_game_eq sample_sprites_def count_remaining_items_def all_sprites_def count_kind_def)
  have lz: "lv_zombies (level breakdown_game) = 1" by (simp add: breakdown_game_eq)
  have s5: "shells (snd (on_canvas_click click_on_zombie breakdown_game)) = 5"
    unfolding c by (simp add: del_sprite_def)
  have ch: "scavenge_chance Quick False (snd (on_canvas_click click_on_zombie breakdown_game)) = 70 / 100"
    unfolding c by (simp add: del_sprite_def breakdown_game_eq scavenge_chance_def clamp_def tunables)
  have sp: "spec_chance Quick 0 False 4 = 75 / 100" by (simp add: spec_chance_def)
  show ?thesis
    using shot_removes_sprite_keeps_counter[OF ne] ne r ms z lz s5 ch sp by simp
qed

subsection \<open>The survival chance\<close>

lemma base_spec_base: "base a = spec_base a"
  by (cases a) simp_all

lemma scavenge_chance_spec:
  "scavenge_chance a give_gun s = spec_chance a (lv_zombies (level s)) give_gun (guns s)"
  by (simp add: scavenge_chance_def spec_chance_def clamp_def Let_def base_spec_base tunables)

lemma after_shot_game_eq:
  "after_shot_game = snd (on_canvas_click click_on_zombie breakdown_game)"
  by (simp add: after_shot_game_def mainloop_step_def breakdown_game_eq)

lemma reachable_after_shot_game: "reachable after_shot_game"
  unfolding after_shot_game_def by (rule reachable_run) (rule reachable_breakdown_game)

text \<open>
  Claim C2. The chance \<^verbatim>\<open>_resolve_scavenge\<close> computes lies in \<open>[0.05, 0.95]\<close> for every
  zombie count, mode and gun choice, and it is the clamped formula with base 0.75, 0.50
  and 0.33, penalty 0.05 and bonus 0.15, read at the zombie counter of the level. That
  counter is not the number of zombies that remain: after a shot that hits, in a level
  whose counter was right, the chance is the formula at one zombie more than remain.
\<close>

theorem scavenge_chance_after_shot:
  "5 / 100 \<le> scavenge_chance a give_gun s \<and> scavenge_chance a give_gun s \<le> 95 / 100
   \<and> scavenge_chance a give_gun s = spec_chance a (lv_zombies (level s)) give_gun (guns s)
   \<and> (snd (on_canvas_click e s) \<noteq> s
        \<and> lv_zombies (level s) = count_remaining_items (sprites_by_view s) Zombie \<longrightarrow>
        scavenge_chance a give_gun (snd (on_canvas_click e s))
          = spec_chance a
              (count_remaining_items (sprites_by_view (snd (on_canvas_click e s))) Zombie + 1)
              give_gun (guns (snd (on_canvas_click e s))))"
proof -
  have "scavenge_chance a give_gun (snd (on_canvas_click e s))
          = spec_chance a
              (count_remaining_items (sprites_by_view (snd (on_canvas_click e s))) Zombie + 1)
              give_gun (guns (snd (on_canvas_click e s)))"
    if ch: "snd (on_canvas_click e s) \<noteq> s"
      and ok: "lv_zombies (level s) = count_remaining_items (sprites_by_view s) Zombie"
    unfolding scavenge_chance_spec on_canvas_click_changed[OF ch] ok by simp
  then show ?thesis
    using chance_range[of a give_gun s] scavenge_chance_spec[of a give_gun s] by blast
qed

text \<open>
  The sample session after the shot at its only zombie: the state is reachable, no zombie
  remains, the formula at zero remaining zombies gives 0.75 for a quick unarmed
  scavenge, and the code computes 0.70.
\<close>

theorem scavenge_chance_after_shot_witness:
  "reachable after_shot_game
   \<and> lv_zombies (level breakdown_game) = count_remaining_items (sprites_by_view breakdown_game) Zombie
   \<and> count_remaining_items (sprites_by_view after_shot_game) Zombie = 0
   \<and> guns after_shot_game = 4
   \<and> spec_chance Quick 0 False 4 = 75 / 100
   \<and> scavenge_chance Quick False after_shot_game = 70 / 100"
proof -
  have c: "on_canvas_click click_on_zombie breakdown_game =
      ([], del_sprite OUT_LEFT 0 (breakdown_game\<lparr>shells := 5\<rparr>))"
    by (simp add: on_canvas_click_def breakdown_game_eq sample_sprites_def click_on_zombie_def hit_def)
  have ne: "snd (on_canvas_click click_on_zombie breakdown_game) \<noteq> breakdown_game"
    unfolding c by (simp add: breakdown_game_eq del_sprite_def)
  have ok: "lv_zombies (level breakdown_game) = count_remaining_items (sprites_by_view breakdown_game) Zombie"
    by (simp add: breakdown_game_eq sample_counts)
  have z: "count_remaining_items (sprites_by_view after_shot_game) Zombie = 0"
    unfolding after_shot_game_eq on_canvas_click_changed(1)[OF ne]
    by (simp add: breakdown_game_eq sample_counts)
  have g: "guns after_shot_game = 4"
    unfolding after_shot_game_eq on_canvas_click_changed(3)[OF ne] by (simp add: breakdown_game_eq)
  have sp: "spec_chance Quick 0 False 4 = 75 / 100" "spec_chance Quick 1 False 4 = 70 / 100"
    by (simp_all add: spec_chance_def)
  have "scavenge_chance Quick False after_shot_game
          = spec_chance Quick (count_remaining_items (sprites_by_view after_shot_game) Zombie + 1)
              False (guns after_shot_game)"
    unfolding after_shot_game_eq
    using scavenge_chance_after_shot[of Quick False breakdown_game click_on_zombie] ne ok by blast
  then have ch: "scavenge_chance Quick False after_shot_game = 70 / 100"
    unfolding z g by (simp add: sp)
  show ?thesis using reachable_after_shot_game ok z g sp(1) ch by simp
qed

subsection \<open>The committed gun\<close>

text \<open>
  Claim C4. Asking for a gun with no gun in the ledger is the same scavenge as asking for
  none: same chance, same outcome, guns unchanged. A gun that is committed comes back
  with a survivor and is lost, exactly one, with a scavenger who dies.
\<close>

theorem gun_commitment:
  "(give_gun \<and> guns s = 0 \<longrightarrow>
      resolve_scavenge a give_gun d s = resolve_scavenge a False d s
      \<and> scavenge_chance a give_gun s = scavenge_chance a False s
      \<and> guns (snd (resolve_scavenge a give_gun d s)) = guns s)
   \<and> (give_gun \<and> guns s > 0 \<and> survived a give_gun d s \<longrightarrow>
      guns (snd (resolve_scavenge a give_gun d s)) = guns s)
   \<and> (give_gun \<and> guns s > 0 \<and> \<not> survived a give_gun d s \<longrightarrow>
      guns (snd (resolve_scavenge a give_gun d s)) = guns s - 1)"
  by (simp add: resolve_scavenge_def gun_committed_def survived_def scavenge_chance_def Let_def)

theorem gun_commitment_witness:
  "resolve_scavenge Quick True always_fail (breakdown_game\<lparr>guns := 0\<rparr>)
      = resolve_scavenge Quick False always_fail (breakdown_game\<lparr>guns := 0\<rparr>)
   \<and> guns (snd (resolve_scavenge Quick True always_fail (breakdown_game\<lparr>guns := 0\<rparr>))) = 0
   \<and> guns (snd (resolve_scavenge Quick True always_survive (breakdown_game\<lparr>guns := 0\<rparr>))) = 0
   \<and> guns (snd (resolve_scavenge Quick True always_survive breakdown_game)) = 4
   \<and> guns (snd (resolve_scavenge Quick True always_fail breakdown_game)) = 3"
proof -
  have g: "guns breakdown_game = 4" "guns (breakdown_game\<lparr>guns := 0\<rparr>) = 0"
    by (simp_all add: breakdown_game_eq)
  have pos: "guns breakdown_game > 0" by (simp add: g)
  have w1: "resolve_scavenge Quick True always_fail (breakdown_game\<lparr>guns := 0\<rparr>)
      = resolve_scavenge Quick False always_fail (breakdown_game\<lparr>guns := 0\<rparr>)
    \<and> guns (snd (resolve_scavenge Quick True always_fail (breakdown_game\<lparr>guns := 0\<rparr>)))
        = guns (breakdown_game\<lparr>guns := 0\<rparr>)"
    using gun_commitment[of True "breakdown_game\<lparr>guns := 0\<rparr>" Quick always_fail] g(2)
    by blast
  have w2: "guns (snd (resolve_scavenge Quick True always_survive (breakdown_game\<lparr>guns := 0\<rparr>)))
        = guns (breakdown_game\<lparr>guns := 0\<rparr>)"
    using gun_commitment[of True "breakdown_game\<lparr>guns := 0\<rparr>" Quick always_survive] g(2)
    by blast
  have w3: "guns (snd (resolve_scavenge Quick True always_survive breakdown_game)) = guns breakdown_game"
    using gun_commitment[of True breakdown_game Quick always_survive] pos
      survived_always_survive[of Quick True breakdown_game]
    by blast
  have w4: "guns (snd (resolve_scavenge Quick True always_fail breakdown_game)) = guns breakdown_game - 1"
    using gun_commitment[of True breakdown_game Quick always_fail] pos
      survived_always_fail[of Quick True breakdown_game]
    by blast
  show ?thesis
  proof (intro conjI)
    show "resolve_scavenge Quick True always_fail (breakdown_game\<lparr>guns := 0\<rparr>)
      = resolve_scavenge Quick False always_fail (breakdown_game\<lparr>guns := 0\<rparr>)"
      using w1 by (rule conjunct1)
    show "guns (snd (resolve_scavenge Quick True always_fail (breakdown_game\<lparr>guns := 0\<rparr>))) = 0"
      using conjunct2[OF w1] by (simp only: g)
    show "guns (snd (resolve_scavenge Quick True always_survive (breakdown_game\<lparr>guns := 0\<rparr>))) = 0"
      using w2 by (simp only: g)
    show "guns (snd (resolve_scavenge Quick True always_survive breakdown_game)) = 4"
      using w3 by (simp only: g)
    show "guns (snd (resolve_scavenge Quick True always_fail breakdown_game)) = 3"
      using w4 by (simp add: g)
  qed
qed

subsection \<open>A scavenger who does not return\<close>

text \<open>
  Claim C10. When the scavenger dies the sprites on the map, the level record with its
  counters, and fuel, shells, parts and ammo are what they were; crew is one less, guns
  is one less exactly when a gun was committed, and the window is destroyed when no crew
  is left. Nothing else changes.
\<close>

theorem failed_scavenge_frame:
  assumes "\<not> survived a give_gun d s"
  shows "snd (resolve_scavenge a give_gun d s) =
           s\<lparr>guns := guns s - (if gun_committed give_gun s then 1 else 0),
             crew := crew s - 1,
             destroyed := (if crew s - 1 \<le> 0 then True else destroyed s)\<rparr>
       \<and> sprites_by_view (snd (resolve_scavenge a give_gun d s)) = sprites_by_view s
       \<and> level (snd (resolve_scavenge a give_gun d s)) = level s
       \<and> fuel (snd (resolve_scavenge a give_gun d s)) = fuel s
       \<and> shells (snd (resolve_scavenge a give_gun d s)) = shells s
       \<and> parts (snd (resolve_scavenge a give_gun d s)) = parts s
       \<and> ammo (snd (resolve_scavenge a give_gun d s)) = ammo s
       \<and> crew (snd (resolve_scavenge a give_gun d s)) = crew s - 1
       \<and> guns (snd (resolve_scavenge a give_gun d s))
            = guns s - (if gun_committed give_gun s then 1 else 0)"
  unfolding resolve_scavenge_died[OF assms] by (simp add: gun_committed_def)

theorem failed_scavenge_frame_witness:
  "\<not> survived Greedy True always_fail breakdown_game
   \<and> snd (resolve_scavenge Greedy True always_fail breakdown_game)
       = breakdown_game\<lparr>guns := 3, crew := 3\<rparr>
   \<and> snd (resolve_scavenge Greedy False always_fail breakdown_game)
       = breakdown_game\<lparr>crew := 3\<rparr>"
proof -
  have g: "guns breakdown_game = 4" "crew breakdown_game = 4" "\<not> destroyed breakdown_game"
    by (simp_all add: breakdown_game_eq)
  show ?thesis
    using failed_scavenge_frame[OF survived_always_fail, of Greedy True breakdown_game]
      failed_scavenge_frame[OF survived_always_fail, of Greedy False breakdown_game]
      survived_always_fail[of Greedy True breakdown_game]
    by (simp add: g gun_committed_def)
qed

subsection \<open>Engine repair\<close>

text \<open>
  Claim C6. \<^verbatim>\<open>_fix_engine\<close> succeeds exactly when a level is active, the engine is broken
  and there is at least one part: it then takes one part and clears \<open>engine_broken\<close>,
  and the tank stays stopped in its level. In every other case it shows its refusal and
  returns the state as it was; with no parts on a breakdown level the refusal is
  \<open>Not enough parts\<close>.
\<close>

theorem fix_engine_cases:
  "(lv_active (level s) \<and> engine_broken s \<and> 1 \<le> parts s \<longrightarrow>
      fix_engine s = ([Engine_fixed], s\<lparr>parts := parts s - 1, engine_broken := False\<rparr>)
      \<and> driving (snd (fix_engine s)) = driving s
      \<and> level (snd (fix_engine s)) = level s)
   \<and> (\<not> lv_active (level s) \<longrightarrow> fix_engine s = ([No_repair_needed_driving], s))
   \<and> (lv_active (level s) \<and> \<not> engine_broken s \<longrightarrow>
        fix_engine s = ([No_repair_needed_not_broken], s))
   \<and> (lv_active (level s) \<and> engine_broken s \<and> parts s \<le> 0 \<longrightarrow>
        fix_engine s = ([Not_enough_parts], s))
   \<and> (fst (fix_engine s) = [Engine_fixed]
        \<longleftrightarrow> lv_active (level s) \<and> engine_broken s \<and> 1 \<le> parts s)"
  by (simp add: fix_engine_def)

theorem fix_engine_cases_witness:
  "lv_reason (level breakdown_game) = Engine_breakdown \<and> parts breakdown_game = 0
   \<and> fix_engine breakdown_game = ([Not_enough_parts], breakdown_game)
   \<and> fix_engine (breakdown_game\<lparr>parts := 2\<rparr>)
       = ([Engine_fixed], breakdown_game\<lparr>parts := 1, engine_broken := False\<rparr>)
   \<and> \<not> driving (snd (fix_engine (breakdown_game\<lparr>parts := 2\<rparr>)))
   \<and> fix_engine initial_game = ([No_repair_needed_driving], initial_game)
   \<and> fix_engine (breakdown_game\<lparr>parts := 1, engine_broken := False\<rparr>)
       = ([No_repair_needed_not_broken], breakdown_game\<lparr>parts := 1, engine_broken := False\<rparr>)"
  using fix_engine_cases[of breakdown_game] fix_engine_cases[of "breakdown_game\<lparr>parts := 2\<rparr>"]
    fix_engine_cases[of initial_game]
    fix_engine_cases[of "breakdown_game\<lparr>parts := 1, engine_broken := False\<rparr>"]
  by (simp add: breakdown_game_eq initial_game_def initial_level_def)

subsection \<open>The ledger\<close>

lemma reachable_ledger_ok: "reachable s \<Longrightarrow> ledger_ok s"
  using reachable_session_ok[of s] by (simp add: session_ok_def)

text \<open>
  Claim C3. In every state a session can reach, and after any further command, fuel,
  shells, guns, crew, parts and ammo are at least 0. A debit the balance does not cover
  leaves its counter as it was: a cannon shot without a shell, a machine-gun burst with
  less than 33 ammo, a repair without a part, a gun for a scavenger when there is none, a
  scavenger when there is no crew, a fuel tick when no fuel is left.
\<close>

theorem ledger_never_negative:
  assumes "reachable s"
  shows "(0 \<le> fuel s \<and> 0 \<le> shells s \<and> 0 \<le> guns s \<and> 0 \<le> crew s \<and> 0 \<le> parts s \<and> 0 \<le> ammo s)
       \<and> ledger_ok (snd (mainloop_step c s))
       \<and> (shells s < 1 \<longrightarrow> shells (snd (on_canvas_click e s)) = shells s)
       \<and> (ammo s < MG_AMMO_COST \<longrightarrow> ammo (snd (on_canvas_click e s)) = ammo s)
       \<and> (parts s < 1 \<longrightarrow> fix_engine s = (fst (fix_engine s), s) \<and> fst (fix_engine s) \<noteq> [Engine_fixed])
       \<and> (guns s < 1 \<longrightarrow> guns (snd (send_scavenger a give_gun d s)) = guns s)
       \<and> (crew s < 1 \<longrightarrow> snd (send_scavenger a give_gun d s) = s)
       \<and> (fuel s < FUEL_CONSUMPTION_PER_SEC \<longrightarrow> fuel (fuel_tick dl s) = fuel s)"
proof -
  have ok: "session_ok s" using assms by (rule reachable_session_ok)
  have l: "ledger_ok s" using assms by (rule reachable_ledger_ok)
  have l': "ledger_ok (snd (mainloop_step c s))"
    by (rule reachable_ledger_ok) (rule reachable_step[OF assms])
  have sh: "shells s < 1 \<longrightarrow> shells (snd (on_canvas_click e s)) = shells s"
    by (auto simp: on_canvas_click_def del_sprite_def split: view.splits option.splits)
  have am: "ammo s < MG_AMMO_COST \<longrightarrow> ammo (snd (on_canvas_click e s)) = ammo s"
    by (auto simp: on_canvas_click_def del_sprite_def split: view.splits option.splits)
  have pa: "parts s < 1 \<longrightarrow> fix_engine s = (fst (fix_engine s), s) \<and> fst (fix_engine s) \<noteq> [Engine_fixed]"
    by (simp add: fix_engine_def)
  have gu: "guns s < 1 \<longrightarrow> guns (snd (send_scavenger a give_gun d s)) = guns s"
    by (simp add: send_scavenger_def resolve_scavenge_def gun_committed_def Let_def)
  have cr: "crew s < 1 \<longrightarrow> snd (send_scavenger a give_gun d s) = s"
    by (simp add: send_scavenger_def)
  have fu: "fuel s < FUEL_CONSUMPTION_PER_SEC \<longrightarrow> fuel (fuel_tick dl s) = fuel s"
    using ok by (auto simp: fuel_tick_def session_ok_def tunables split: if_splits)
  show ?thesis using l l' sh am pa gu cr fu by (simp add: ledger_ok_def)
qed

theorem ledger_never_negative_witness:
  "reachable breakdown_game
   \<and> parts breakdown_game = 0
   \<and> fix_engine breakdown_game = ([Not_enough_parts], breakdown_game)
   \<and> ledger_ok (snd (mainloop_step Fix_engine breakdown_game))
   \<and> reachable game_over_game \<and> crew game_over_game = 0
   \<and> snd (send_scavenger Quick True always_fail game_over_game) = game_over_game
   \<and> reachable out_of_fuel_game \<and> fuel out_of_fuel_game = 0
   \<and> fuel (fuel_tick sample_draws out_of_fuel_game) = 0"
proof -
  have b: "parts breakdown_game = 0" "fix_engine breakdown_game = ([Not_enough_parts], breakdown_game)"
    by (simp_all add: breakdown_game_eq fix_engine_def)
  have g: "crew game_over_game = 0" by (simp add: game_over_game_eq)
  have f: "fuel out_of_fuel_game = 0" by (simp add: out_of_fuel_game_eq sample_start_level)
  show ?thesis
    using ledger_never_negative[OF reachable_breakdown_game, of Fix_engine]
      ledger_never_negative[OF reachable_game_over_game, of _ _ Quick True always_fail]
      ledger_never_negative[OF reachable_out_of_fuel_game, of _ _ _ _ _ sample_draws]
      reachable_breakdown_game reachable_game_over_game reachable_out_of_fuel_game
    by (simp add: b g f tunables)
qed

subsection \<open>Game over\<close>

text \<open>
  Claim C8. A session with no crew left has been torn down: in every reachable state
  with crew 0 the root window is destroyed, and the failed scavenge of the last crew
  member is what destroys it. From a destroyed session no command, and no sequence of
  commands (stop, start, repair, click, scavenge, timers), shows anything or changes
  the state.
\<close>

theorem game_over_is_terminal:
  assumes "reachable s"
  shows "(crew s \<le> 0 \<longrightarrow> destroyed s)
       \<and> (crew s \<le> 0 \<longrightarrow> mainloop_step c s = ([], s) \<and> run cs s = s)
       \<and> (\<not> destroyed s \<and> lv_active (level s) \<and> crew s = 1 \<and> \<not> survived a give_gun d s \<longrightarrow>
            fst (mainloop_step (Send_scavenger a give_gun d) s) = [Scavenging, Lost, Game_Over]
            \<and> crew (snd (mainloop_step (Send_scavenger a give_gun d) s)) = 0
            \<and> destroyed (snd (mainloop_step (Send_scavenger a give_gun d) s)))"
proof -
  have ok: "session_ok s" using assms by (rule reachable_session_ok)
  have d: "crew s \<le> 0 \<longrightarrow> destroyed s" using ok by (simp add: session_ok_def split: if_splits)
  have t: "destroyed s \<longrightarrow> mainloop_step c s = ([], s) \<and> run cs s = s"
    by (simp add: mainloop_step_def run_destroyed)
  have l: "\<not> destroyed s \<and> lv_active (level s) \<and> crew s = 1 \<and> \<not> survived a give_gun d s \<longrightarrow>
            fst (mainloop_step (Send_scavenger a give_gun d) s) = [Scavenging, Lost, Game_Over]
            \<and> crew (snd (mainloop_step (Send_scavenger a give_gun d) s)) = 0
            \<and> destroyed (snd (mainloop_step (Send_scavenger a give_gun d) s))"
    by (simp add: mainloop_step_def send_scavenger_def resolve_scavenge_def Let_def)
  show ?thesis using d t l by blast
qed

lemma last_crew_game_eq: "last_crew_game = breakdown_game\<lparr>crew := 1\<rparr>"
proof -
  have r: "replicate 3 c = [c, c, c]" for c :: command by (simp add: numeral_eq_Suc)
  show ?thesis
    unfolding last_crew_game_def r
    by (simp add: failed_scavenge_step breakdown_game_eq)
qed

lemma reachable_last_crew_game: "reachable last_crew_game"
  unfolding last_crew_game_def by (rule reachable_run) (rule reachable_breakdown_game)

theorem game_over_is_terminal_witness:
  "reachable last_crew_game \<and> crew last_crew_game = 1
   \<and> fst (mainloop_step (Send_scavenger Quick False always_fail) last_crew_game)
       = [Scavenging, Lost, Game_Over]
   \<and> destroyed (snd (mainloop_step (Send_scavenger Quick False always_fail) last_crew_game))
   \<and> reachable game_over_game \<and> crew game_over_game = 0 \<and> destroyed game_over_game
   \<and> mainloop_step Driver_start game_over_game = ([], game_over_game)
   \<and> run [Fix_engine, Canvas_click click_on_zombie, Send_scavenger Quick True always_survive,
           Driver_start, Fuel_tick sample_draws] game_over_game = game_over_game"
proof -
  have g: "crew game_over_game = 0" by (simp add: game_over_game_eq)
  have l: "crew last_crew_game = 1" "\<not> destroyed last_crew_game" "lv_active (level last_crew_game)"
    by (simp_all add: last_crew_game_eq breakdown_game_eq)
  show ?thesis
    using game_over_is_terminal[OF reachable_game_over_game, of Driver_start
        "[Fix_engine, Canvas_click click_on_zombie, Send_scavenger Quick True always_survive,
           Driver_start, Fuel_tick sample_draws]"]
      game_over_is_terminal[OF reachable_last_crew_game, of _ _ Quick False always_fail]
      survived_always_fail[of Quick False last_crew_game]
      reachable_game_over_game reachable_last_crew_game g l
    by simp
qed

subsection \<open>A scavenger who returns\<close>

text \<open>
  Claim C5. When the scavenger survives, for each kind the number of sprites that leave
  the map is the number \<open>got\<close> of that kind, which is not negative, and the ledger is
  credited from that same number: parts and shells by it, ammo by it times the box size,
  fuel by one can yield per collected can. Zombies are not touched. So the items removed
  in total are the items gained in total.
\<close>

theorem survival_accounting:
  assumes "survived a give_gun d s"
  shows "let g = loot_of a d s; s' = snd (resolve_scavenge a give_gun d s);
             before = count_remaining_items (sprites_by_view s);
             after = count_remaining_items (sprites_by_view s')
         in 0 \<le> got_parts g \<and> before Part - after Part = got_parts g \<and> parts s' - parts s = got_parts g
          \<and> 0 \<le> got_shells g \<and> before Shell - after Shell = got_shells g \<and> shells s' - shells s = got_shells g
          \<and> 0 \<le> got_fuel_cans g \<and> before Fuel - after Fuel = got_fuel_cans g
             \<and> fuel s' - fuel s = fuel_gained (d_fuel d) (nat (got_fuel_cans g))
          \<and> 0 \<le> got_ammo_boxes g \<and> before Ammo - after Ammo = got_ammo_boxes g
             \<and> ammo s' - ammo s = got_ammo_boxes g * AMMO_PER_BOX
          \<and> after Zombie = before Zombie
          \<and> (before Part - after Part) + (before Shell - after Shell) + (before Fuel - after Fuel)
               + (before Ammo - after Ammo)
             = got_parts g + got_shells g + got_fuel_cans g + got_ammo_boxes g"
proof -
  note b = loot_of_bounds[of a d s]
  have rc: "count_remaining_items (sprites_by_view (snd (resolve_scavenge a give_gun d s))) k
     = count_remaining_items (sprites_by_view s) k -
        (case k of Part \<Rightarrow> got_parts (loot_of a d s) | Shell \<Rightarrow> got_shells (loot_of a d s)
         | Fuel \<Rightarrow> got_fuel_cans (loot_of a d s) | Ammo \<Rightarrow> got_ammo_boxes (loot_of a d s) | Zombie \<Rightarrow> 0)" for k
    unfolding resolve_scavenge_survived[OF assms] using b
    by (simp add: removed_counts)
  show ?thesis
    unfolding Let_def using b
    by (simp add: rc) (simp add: resolve_scavenge_survived[OF assms])
qed

lemma sample_loot:
  "loot_of Quick always_survive breakdown_game
     = \<lparr>got_parts = 1, got_shells = 0, got_fuel_cans = 0, got_ammo_boxes = 0\<rparr>"
  "loot_of Greedy survive_pick_fuel breakdown_game
     = \<lparr>got_parts = 0, got_shells = 0, got_fuel_cans = 1, got_ammo_boxes = 0\<rparr>"
  by (simp_all add: loot_of_def scavenge_loot_def breakdown_game_eq sample_counts always_survive_def
      survive_pick_fuel_def random_random_def py_int_def choices_def random_choice_def Let_def)

theorem survival_accounting_witness:
  "survived Quick False always_survive breakdown_game
   \<and> parts (snd (resolve_scavenge Quick False always_survive breakdown_game)) = 1
   \<and> count_remaining_items
        (sprites_by_view (snd (resolve_scavenge Quick False always_survive breakdown_game))) Part = 0
   \<and> survived Greedy False survive_pick_fuel breakdown_game
   \<and> fuel (snd (resolve_scavenge Greedy False survive_pick_fuel breakdown_game)) = 210
   \<and> count_remaining_items
        (sprites_by_view (snd (resolve_scavenge Greedy False survive_pick_fuel breakdown_game))) Fuel = 0"
proof -
  have s1: "survived Quick False always_survive breakdown_game" by (rule survived_always_survive)
  have s2: "survived Greedy False survive_pick_fuel breakdown_game"
    using chance_range[of Greedy False breakdown_game]
    by (simp add: survived_def survive_pick_fuel_def random_random_def)
  have b: "parts breakdown_game = 0" "fuel breakdown_game = 200"
     "sprites_by_view breakdown_game = sample_sprites"
    by (simp_all add: breakdown_game_eq)
  have f: "randint FUEL_CAN_MIN FUEL_CAN_MAX (d_fuel survive_pick_fuel 0) = 10"
    by (simp add: survive_pick_fuel_def randint_def tunables)
  have w1: "parts (snd (resolve_scavenge Quick False always_survive breakdown_game)) = 1
     \<and> count_remaining_items
        (sprites_by_view (snd (resolve_scavenge Quick False always_survive breakdown_game))) Part = 0"
    using survival_accounting[OF s1] by (simp add: Let_def sample_loot b sample_counts)
  have w2: "fuel (snd (resolve_scavenge Greedy False survive_pick_fuel breakdown_game)) = 210
     \<and> count_remaining_items
        (sprites_by_view (snd (resolve_scavenge Greedy False survive_pick_fuel breakdown_game))) Fuel = 0"
    using survival_accounting[OF s2] by (simp add: Let_def sample_loot b sample_counts f)
  show ?thesis using s1 s2 w1 w2 by simp
qed

subsection \<open>Starting the engine without fuel\<close>

text \<open>
  Claim C7. In every state a session reaches with an active level and fuel 0, the start
  command is refused and the state is what it was, whether the engine is broken or not
  and whatever started the level. \<^verbatim>\<open>_driver_start\<close> asks for fuel only in a level that was
  started by running out of fuel; fuel reaches 0 only in the fuel tick that starts such a
  level, and no command of a level takes fuel away, so a level with fuel 0 is always
  one of those.
\<close>

theorem driver_start_needs_fuel:
  assumes "reachable s" and "lv_active (level s)" and "fuel s = 0"
  shows "snd (driver_start s) = s
       \<and> fst (driver_start s)
            = [if engine_broken s then Cannot_start_engine_broken else Cannot_start_no_fuel]
       \<and> \<not> driving (snd (driver_start s))
       \<and> lv_active (level (snd (driver_start s)))
       \<and> out_of_fuel s"
proof -
  have "out_of_fuel s \<and> \<not> driving s"
    using reachable_session_ok[OF assms(1)] assms(2,3)
    by (auto simp: session_ok_def split: if_splits)
  then show ?thesis using assms(2,3) by (simp add: driver_start_def)
qed

theorem driver_start_needs_fuel_witness:
  "reachable out_of_fuel_game \<and> lv_active (level out_of_fuel_game)
   \<and> lv_reason (level out_of_fuel_game) = Out_of_fuel \<and> fuel out_of_fuel_game = 0
   \<and> driver_start out_of_fuel_game = ([Cannot_start_no_fuel], out_of_fuel_game)"
proof -
  have a: "lv_active (level out_of_fuel_game)" "lv_reason (level out_of_fuel_game) = Out_of_fuel"
    "fuel out_of_fuel_game = 0" "\<not> engine_broken out_of_fuel_game"
    unfolding out_of_fuel_game_eq by (simp_all add: sample_start_level initial_game_def)
  have "snd (driver_start out_of_fuel_game) = out_of_fuel_game
      \<and> fst (driver_start out_of_fuel_game) = [Cannot_start_no_fuel]"
    using driver_start_needs_fuel[OF reachable_out_of_fuel_game a(1) a(3)] a(4) by simp
  then have w: "driver_start out_of_fuel_game = ([Cannot_start_no_fuel], out_of_fuel_game)"
    by (metis prod.collapse)
  show ?thesis using reachable_out_of_fuel_game a w by simp
qed

text \<open>The sample level of claim C9: one part in the level record, one part sprite on the map.\<close>

theorem start_level_parts_ge_1_witness:
  "lv_parts (level (start_level Engine_breakdown sample_draws initial_game)) = 1
   \<and> count_remaining_items (sprites_by_view (start_level Engine_breakdown sample_draws initial_game)) Part = 1"
  using start_level_parts_ge_1[of Engine_breakdown sample_draws initial_game]
  by (simp add: sample_start_level)

end
